theory Spec2Isabelle
  imports Main
begin

section \<open>Byte strings as the code reads them\<close>

text \<open>
  \<^verbatim>\<open>std::string\<close> and \<^verbatim>\<open>std::string_view\<close> are modelled as \<^typ>\<open>string\<close>
  (a list of bytes). A position or a length is a \<^typ>\<open>nat\<close>: every index the code
  computes is bounded by the length of a buffer held in memory plus a small constant,
  so \<^verbatim>\<open>size_t\<close> never wraps. The value \<^verbatim>\<open>npos\<close> returned by the search
  functions is modelled as \<^term>\<open>None\<close>.
\<close>

abbreviation CRLF :: string where
  "CRLF \<equiv> [CHR 0x0D, CHR 0x0A]"

text \<open>Index of the first occurrence of a byte, counted from the head of the list.\<close>

fun index_of :: "char \<Rightarrow> string \<Rightarrow> nat option" where
  "index_of c [] = None"
| "index_of c (x # xs) = (if x = c then Some 0 else map_option Suc (index_of c xs))"

text \<open>\<^verbatim>\<open>s.find(c, pos)\<close>: the first position \<open>\<ge> pos\<close> holding \<open>c\<close>.\<close>

definition find_char :: "char \<Rightarrow> nat \<Rightarrow> string \<Rightarrow> nat option" where
  "find_char c pos s =
     (if length s < pos then None
      else map_option (\<lambda>i. i + pos) (index_of c (drop pos s)))"

text \<open>\<^verbatim>\<open>s.rfind(c)\<close>: the last position holding \<open>c\<close>.\<close>

definition rfind_char :: "char \<Rightarrow> string \<Rightarrow> nat option" where
  "rfind_char c s = map_option (\<lambda>i. length s - 1 - i) (index_of c (rev s))"

text \<open>Does \<open>s\<close> begin with \<open>pat\<close>?\<close>

fun starts_with :: "string \<Rightarrow> string \<Rightarrow> bool" where
  "starts_with [] s = True"
| "starts_with (p # ps) [] = False"
| "starts_with (p # ps) (x # xs) = (p = x \<and> starts_with ps xs)"

fun index_of_str :: "string \<Rightarrow> string \<Rightarrow> nat option" where
  "index_of_str pat [] = (if pat = [] then Some 0 else None)"
| "index_of_str pat (x # xs) =
     (if starts_with pat (x # xs) then Some 0 else map_option Suc (index_of_str pat xs))"

text \<open>\<^verbatim>\<open>s.find(pat, pos)\<close>: the first position \<open>\<ge> pos\<close> where \<open>pat\<close> occurs.\<close>

definition find_str :: "string \<Rightarrow> nat \<Rightarrow> string \<Rightarrow> nat option" where
  "find_str pat pos s =
     (if length s < pos then None
      else map_option (\<lambda>i. i + pos) (index_of_str pat (drop pos s)))"

text \<open>
  \<^verbatim>\<open>s.substr(pos, count)\<close> for \<open>pos \<le> size\<close> (every call site of the code
  guarantees it, so the \<^verbatim>\<open>out_of_range\<close> exception is never raised); a count of
  \<^verbatim>\<open>npos\<close> takes the rest.
\<close>

definition substr :: "string \<Rightarrow> nat \<Rightarrow> nat option \<Rightarrow> string" where
  "substr s pos count = (case count of None \<Rightarrow> drop pos s | Some n \<Rightarrow> take n (drop pos s))"

section \<open>Methods\<close>

datatype Method = Get | Head | Post | Put | Delete | Connect | Options | Trace | Patch

definition parseMethod :: "string \<Rightarrow> Method option" where
  "parseMethod method =
     (if method = ''GET'' then Some Get
      else if method = ''HEAD'' then Some Head
      else if method = ''POST'' then Some Post
      else if method = ''PUT'' then Some Put
      else if method = ''DELETE'' then Some Delete
      else if method = ''CONNECT'' then Some Connect
      else if method = ''OPTIONS'' then Some Options
      else if method = ''TRACE'' then Some Trace
      else if method = ''PATCH'' then Some Patch
      else None)"

section \<open>Remove dot segments\<close>

text \<open>
  The loop of \<^verbatim>\<open>removeDotSegments\<close>, with the remaining input and the output buffer as
  arguments. A failed \<^verbatim>\<open>assert\<close> is the result \<^term>\<open>None\<close>.
\<close>

function removeDotSegments_loop :: "string \<Rightarrow> string \<Rightarrow> string option" where
  "removeDotSegments_loop input output =
     (if input = [] then Some output
      else if hd input \<noteq> CHR ''/'' then None
      else if input = ''/'' then Some (output @ ''/'')
      else
        (let segmentLength = find_char CHR ''/'' 1 input;
             segment = substr input 0 segmentLength
         in case
              (if segment = ''/.'' then Some output
               else if segment = ''/..'' then
                 (case rfind_char CHR ''/'' output of
                    Some lastSlash \<Rightarrow> Some (take lastSlash output)
                  | None \<Rightarrow> if output = [] then Some output else None)
               else Some (output @ segment))
            of None \<Rightarrow> None
             | Some output' \<Rightarrow>
                 (case segmentLength of
                    None \<Rightarrow> Some output'
                  | Some n \<Rightarrow> removeDotSegments_loop (drop n input) output')))"
  by pat_completeness auto

lemma index_of_bound: "index_of c s = Some i \<Longrightarrow> i < length s"
  by (induction s arbitrary: i) (auto split: if_splits)

lemma find_char_bounds: "find_char c pos s = Some n \<Longrightarrow> pos \<le> n \<and> n < length s"
  by (auto simp: find_char_def split: if_splits dest!: index_of_bound)

lemma find_char_shrinks:
  assumes "Some n = find_char c (Suc 0) s"
  shows "length s - n < length s"
proof -
  from assms have "find_char c (Suc 0) s = Some n" by simp
  then have "Suc 0 \<le> n \<and> n < length s" by (rule find_char_bounds)
  then show ?thesis by arith
qed

termination removeDotSegments_loop
  by (relation "measure (\<lambda>(input, output). length input)")
    (simp_all add: find_char_shrinks)

declare removeDotSegments_loop.simps [simp del]

definition removeDotSegments :: "string \<Rightarrow> string option" where
  "removeDotSegments input =
     (if input = [] then None
      else if hd input \<noteq> CHR ''/'' then None
      else case removeDotSegments_loop input [] of
             None \<Rightarrow> None
           | Some output \<Rightarrow> Some (if output = [] then ''/'' else output))"

section \<open>URL parsing\<close>

text \<open>
  A function of the code fails in two ways: it returns \<^verbatim>\<open>std::nullopt\<close>, or one of its
  \<^verbatim>\<open>assert\<close>s aborts the process.
\<close>

datatype failure = Nullopt | AssertionFailed

text \<open>
  Modelled from the spec: the struct \<^verbatim>\<open>Url\<close> is declared in \<^verbatim>\<open>http.hpp\<close>. The
  fields below are the ones \<^verbatim>\<open>Url::parse\<close> assigns; the spec makes query, params and
  fragment optional. A default-constructed \<^verbatim>\<open>Url\<close> has empty strings and no optional
  value.
\<close>

record Url =
  fullRaw :: string
  path :: string
  query :: "string option"
  params :: "string option"
  fragment :: "string option"

definition Url_default :: Url where
  "Url_default = \<lparr>fullRaw = [], path = [], query = None, params = None, fragment = None\<rparr>"

text \<open>
  The value of a \<^verbatim>\<open>char\<close> in a comparison: \<^verbatim>\<open>char\<close> is signed on the platforms the
  code targets (Linux on x86-64), so bytes from 128 on are negative.
\<close>

definition char_val :: "char \<Rightarrow> int" where
  "char_val ch = (let n = of_char ch in if n < 128 then n else n - 256)"

definition isAlphaNum :: "char \<Rightarrow> bool" where
  "isAlphaNum ch \<longleftrightarrow>
     (char_val ch \<ge> char_val CHR ''a'' \<and> char_val ch \<le> char_val CHR ''z'')
     \<or> (char_val ch \<ge> char_val CHR ''0'' \<and> char_val ch \<le> char_val CHR ''9'')
     \<or> (char_val ch \<ge> char_val CHR ''A'' \<or> char_val ch \<le> char_val CHR ''Z'')"

definition isSchemeChar :: "char \<Rightarrow> bool" where
  "isSchemeChar ch \<longleftrightarrow> isAlphaNum ch \<or> ch = CHR ''+'' \<or> ch = CHR ''.'' \<or> ch = CHR ''-''"

text \<open>The loop \<^verbatim>\<open>for (i = 0; i < colon; ++i)\<close> that computes \<^verbatim>\<open>isScheme\<close>.\<close>

function isScheme_loop :: "string \<Rightarrow> nat \<Rightarrow> nat \<Rightarrow> bool" where
  "isScheme_loop urlStr colon i =
     (if i < colon then
        (if isSchemeChar (urlStr ! i) then isScheme_loop urlStr colon (Suc i) else False)
      else True)"
  by pat_completeness auto

termination isScheme_loop
  by (relation "measure (\<lambda>(urlStr, colon, i). colon - i)") simp_all

declare isScheme_loop.simps [simp del]

definition Url_parse :: "string \<Rightarrow> failure + Url" where
  "Url_parse urlStr0 =
     (let url0 = Url_default\<lparr>fullRaw := urlStr0\<rparr> in
      if fullRaw url0 = ''*'' then Inr url0
      else
        let fragmentStart = find_char CHR ''#'' 0 urlStr0;
            url1 = (case fragmentStart of
                      None \<Rightarrow> url0
                    | Some f \<Rightarrow> url0\<lparr>fragment := Some (substr urlStr0 (f + 1) None)\<rparr>);
            urlStr1 = (case fragmentStart of
                         None \<Rightarrow> urlStr0
                       | Some f \<Rightarrow> substr urlStr0 0 (Some f))
        in
        if urlStr1 = [] then Inl Nullopt
        else
          let colon = find_char CHR '':'' 0 urlStr1;
              urlStr2 = (case colon of
                           None \<Rightarrow> urlStr1
                         | Some c \<Rightarrow>
                             if isScheme_loop urlStr1 c 0 then substr urlStr1 (c + 1) None
                             else urlStr1);
              urlStr3 = (if 2 \<le> length urlStr2 \<and> substr urlStr2 0 (Some 2) = ''//''
                         then substr urlStr2 2 (find_str ''/'' 2 urlStr2)
                         else urlStr2);
              queryStart = find_char CHR ''?'' 0 urlStr3;
              url2 = (case queryStart of
                        None \<Rightarrow> url1
                      | Some q \<Rightarrow> url1\<lparr>query := Some (substr urlStr3 (q + 1) None)\<rparr>);
              urlStr4 = (case queryStart of
                           None \<Rightarrow> urlStr3
                         | Some q \<Rightarrow> substr urlStr3 0 (Some q));
              paramsStart = find_char CHR '';'' 0 urlStr4;
              url3 = (case paramsStart of
                        None \<Rightarrow> url2
                      | Some p \<Rightarrow> url2\<lparr>params := Some (substr urlStr4 (p + 1) None)\<rparr>);
              urlStr5 = (case paramsStart of
                           None \<Rightarrow> urlStr4
                         | Some p \<Rightarrow> substr urlStr4 0 (Some p))
          in
          if urlStr5 = [] then Inl Nullopt
          else if hd urlStr5 \<noteq> CHR ''/'' then Inl Nullopt
          else
            (case removeDotSegments urlStr5 of
               None \<Rightarrow> Inl AssertionFailed
             | Some p \<Rightarrow> Inr (url3\<lparr>path := p\<rparr>)))"

section \<open>Header maps\<close>

text \<open>
  Modelled from the spec: \<^verbatim>\<open>HeaderMap\<close> is declared in \<^verbatim>\<open>http.hpp\<close>. The spec
  describes an ordered multimap from header names to values, with \<^verbatim>\<open>add\<close>, a
  \<^verbatim>\<open>get\<close> that returns the first match and looks names up without regard to case,
  \<^verbatim>\<open>contains\<close>, and a \<^verbatim>\<open>serialize\<close> that appends \<^verbatim>\<open><name>: <value>\r\n\<close> for each
  entry in insertion order.
\<close>

type_synonym HeaderMap = "(string \<times> string) list"

definition ascii_lower :: "char \<Rightarrow> char" where
  "ascii_lower c =
     (case map_of (zip ''ABCDEFGHIJKLMNOPQRSTUVWXYZ'' ''abcdefghijklmnopqrstuvwxyz'') c of
        None \<Rightarrow> c
      | Some l \<Rightarrow> l)"

definition HeaderMap_add :: "HeaderMap \<Rightarrow> string \<Rightarrow> string \<Rightarrow> HeaderMap" where
  "HeaderMap_add h name val = h @ [(name, val)]"

definition HeaderMap_get :: "HeaderMap \<Rightarrow> string \<Rightarrow> string option" where
  "HeaderMap_get h name =
     map_option snd (find (\<lambda>e. map ascii_lower (fst e) = map ascii_lower name) h)"

definition HeaderMap_serialize :: "HeaderMap \<Rightarrow> string \<Rightarrow> string" where
  "HeaderMap_serialize h buf = foldl (\<lambda>b e. b @ fst e @ '': '' @ snd e @ CRLF) buf h"

text \<open>
  Modelled from the spec: \<^verbatim>\<open>isHttpWhitespace\<close> is declared in \<^verbatim>\<open>http.hpp\<close>; the
  spec names space and horizontal tab.
\<close>

definition isHttpWhitespace :: "char \<Rightarrow> bool" where
  "isHttpWhitespace ch \<longleftrightarrow> ch = CHR '' '' \<or> ch = CHR 0x09"

section \<open>Request parsing\<close>

text \<open>
  Modelled from the spec: the struct \<^verbatim>\<open>Request\<close> is declared in \<^verbatim>\<open>http.hpp\<close>, with
  the fields the spec lists. \<^verbatim>\<open>Request::parse\<close> starts from a default-constructed
  \<^verbatim>\<open>Request\<close>: empty strings and an empty header map (the method is assigned on every
  successful parse). The field \<open>method'\<close> is \<^verbatim>\<open>method\<close> of the code.
\<close>

record Request =
  method' :: Method
  url :: Url
  version :: string
  requestLine :: string
  headers :: HeaderMap
  body :: string

definition Request_default :: Request where
  "Request_default =
     \<lparr>method' = Get, url = Url_default, version = [], requestLine = [], headers = [], body = []\<rparr>"

text \<open>The two inner loops that delimit a header value.\<close>

function skip_whitespace :: "string \<Rightarrow> nat \<Rightarrow> nat" where
  "skip_whitespace line valueStart =
     (if valueStart < length line then
        (if isHttpWhitespace (line ! valueStart) then skip_whitespace line (Suc valueStart)
         else valueStart)
      else valueStart)"
  by pat_completeness auto

termination skip_whitespace
  by (relation "measure (\<lambda>(line, valueStart). length line - valueStart)") simp_all

declare skip_whitespace.simps [simp del]

function skip_non_whitespace :: "string \<Rightarrow> nat \<Rightarrow> nat" where
  "skip_non_whitespace line valueEnd =
     (if valueEnd < length line then
        (if isHttpWhitespace (line ! valueEnd) then valueEnd
         else skip_non_whitespace line (Suc valueEnd))
      else valueEnd)"
  by pat_completeness auto

termination skip_non_whitespace
  by (relation "measure (\<lambda>(line, valueEnd). length line - valueEnd)") simp_all

declare skip_non_whitespace.simps [simp del]

text \<open>
  The header loop \<^verbatim>\<open>while (lineStart < requestStr.size())\<close>. Its state is
  \<^verbatim>\<open>lineStart\<close> and the header map built so far.
\<close>

function parse_headers_loop :: "string \<Rightarrow> nat \<Rightarrow> HeaderMap \<Rightarrow> failure + nat \<times> HeaderMap" where
  "parse_headers_loop requestStr lineStart hs =
     (if lineStart < length requestStr then
        (case find_str CRLF lineStart requestStr of
           None \<Rightarrow> Inl Nullopt
         | Some lineEnd \<Rightarrow>
             if lineStart = lineEnd then Inr (lineStart + 2, hs)
             else
               (let line = substr requestStr lineStart (Some (lineEnd - lineStart)) in
                case find_char CHR '':'' 0 line of
                  None \<Rightarrow> Inl Nullopt
                | Some colon \<Rightarrow>
                    (let name = substr line 0 (Some colon);
                         valueStart = skip_whitespace line (colon + 1);
                         valueEnd = skip_non_whitespace line valueStart;
                         val = substr line valueStart (Some (valueEnd - valueStart))
                     in parse_headers_loop requestStr (lineEnd + 2) (HeaderMap_add hs name val))))
      else Inr (lineStart, hs))"
  by pat_completeness auto

lemma index_of_str_bound: "index_of_str pat s = Some i \<Longrightarrow> i \<le> length s"
  by (induction s arbitrary: i) (auto split: if_splits)

lemma find_str_bounds: "find_str pat pos s = Some n \<Longrightarrow> pos \<le> n \<and> n \<le> length s"
  by (auto simp: find_str_def split: if_splits dest!: index_of_str_bound)

lemma find_str_advances:
  assumes "lineStart < length s" and "find_str pat lineStart s = Some lineEnd"
  shows "length s - Suc (Suc lineEnd) < length s - lineStart"
proof -
  from assms(2) have "lineStart \<le> lineEnd" using find_str_bounds by blast
  with assms(1) show ?thesis by arith
qed

termination parse_headers_loop
  by (relation "measure (\<lambda>(requestStr, lineStart, hs). length requestStr - lineStart)")
    (simp_all add: find_str_advances)

declare parse_headers_loop.simps [simp del]

text \<open>
  \<^verbatim>\<open>Request::parse\<close>. The bound \<^verbatim>\<open>Config::get().maxUrlLength\<close> comes from
  \<^verbatim>\<open>config.hpp\<close>, which is not part of the sources at hand, so it is a parameter.
\<close>

definition Request_parse :: "nat \<Rightarrow> string \<Rightarrow> failure + Request" where
  "Request_parse maxUrlLength requestStr =
     (let req = Request_default in
      case find_str CRLF 0 requestStr of
        None \<Rightarrow> Inl Nullopt
      | Some requestLineEnd \<Rightarrow>
          (let requestLine = substr requestStr 0 (Some requestLineEnd) in
           case find_char CHR '' '' 0 requestLine of
             None \<Rightarrow> Inl Nullopt
           | Some methodDelim \<Rightarrow>
               (let methodStr = substr requestLine 0 (Some methodDelim) in
                case parseMethod methodStr of
                  None \<Rightarrow> Inl Nullopt
                | Some m \<Rightarrow>
                    (let req = req\<lparr>method' := m\<rparr>;
                         urlStart = methodDelim + 1
                     in
                     if urlStart \<ge> length requestLine then Inl Nullopt
                     else
                       (case find_char CHR '' '' 0 (substr requestLine urlStart (Some maxUrlLength)) of
                          None \<Rightarrow> Inl Nullopt
                        | Some urlLen \<Rightarrow>
                            (case Url_parse (substr requestLine urlStart (Some urlLen)) of
                               Inl e \<Rightarrow> Inl e
                             | Inr u \<Rightarrow>
                                 (let req = req\<lparr>url := u\<rparr>;
                                      versionStart = urlStart + urlLen + 1
                                  in
                                  if versionStart > length requestLine then Inl Nullopt
                                  else
                                    (let req = req\<lparr>version := substr requestLine versionStart None\<rparr> in
                                     if length (version req) \<noteq> 8 then Inl Nullopt
                                     else if substr (version req) 0 (Some 7) \<noteq> ''HTTP/1.'' then Inl Nullopt
                                     else if version req ! 7 \<noteq> CHR ''0'' \<and> version req ! 7 \<noteq> CHR ''1''
                                       then Inl Nullopt
                                     else
                                       (let lineStart = requestLineEnd + 2;
                                            lineStart = lineStart + 2
                                        in
                                        case parse_headers_loop requestStr lineStart (headers req) of
                                          Inl e \<Rightarrow> Inl e
                                        | Inr (lineStart, hs) \<Rightarrow> Inr (req\<lparr>headers := hs\<rparr>))))))))))"

section \<open>Server session: reading a request\<close>

text \<open>
  Modelled from the spec: \<^verbatim>\<open>parseInt<uint64_t>\<close> is declared in \<^verbatim>\<open>util.hpp\<close>. The
  spec only separates a parseable \<^verbatim>\<open>Content-Length\<close> from an unparseable one; the model
  accepts a non-empty string of decimal digits whose value fits in 64 bits.
\<close>

definition digit_val :: "char \<Rightarrow> nat option" where
  "digit_val c = map_of (zip ''0123456789'' [0, 1, 2, 3, 4, 5, 6, 7, 8, 9]) c"

fun parse_digits :: "string \<Rightarrow> nat \<Rightarrow> nat option" where
  "parse_digits [] acc = Some acc"
| "parse_digits (c # cs) acc =
     (case digit_val c of None \<Rightarrow> None | Some d \<Rightarrow> parse_digits cs (10 * acc + d))"

definition parseInt_uint64 :: "string \<Rightarrow> nat option" where
  "parseInt_uint64 str =
     (if str = [] then None
      else case parse_digits str 0 of
             None \<Rightarrow> None
           | Some n \<Rightarrow> if n < 2 ^ 64 then Some n else None)"

text \<open>
  The fields of \<^verbatim>\<open>Config::Server\<close> (\<^verbatim>\<open>config.hpp\<close>) that \<^verbatim>\<open>readRequest\<close> reads.
\<close>

record ServerConfig =
  maxRequestHeaderSize :: nat
  maxRequestBodySize :: nat

text \<open>
  The members of \<^verbatim>\<open>Server::Session\<close> that reading a request touches, named
  without the trailing underscore of the code (\<open>session_request\<close> is \<^verbatim>\<open>request_\<close>).
\<close>

record Session =
  requestHeaderBuffer :: string
  requestBodyBuffer :: string
  session_request :: Request

text \<open>
  What the completion of the header \<^verbatim>\<open>recv\<close> does next. \<open>ReadRequestBody n\<close> is the
  call \<^verbatim>\<open>readRequestBody(n)\<close>, which issues a further \<^verbatim>\<open>recv\<close> on the connection;
  \<open>ProcessRequest r\<close> is the call \<^verbatim>\<open>processRequest(request_)\<close>, which invokes the
  handler with \<open>r\<close>; \<open>Respond b k\<close> is \<^verbatim>\<open>respond(b, k)\<close> with a literal response.
\<close>

datatype session_action =
    ShutdownThenClose
  | Close
  | Respond string bool
  | ReadRequestBody nat
  | ProcessRequest Request
  | Abort

abbreviation ECANCELED :: nat where
  "ECANCELED \<equiv> 125"

definition bad_request :: string where
  "bad_request = ''HTTP/1.1 400 Bad Request'' @ CRLF @ ''Connection: close'' @ CRLF @ CRLF"

text \<open>
  \<^verbatim>\<open>readRequest\<close> together with the completion of its \<^verbatim>\<open>recv\<close>: \<open>ec\<close> is the
  error code (\<^term>\<open>None\<close> when there is none) and \<open>received\<close> the bytes the
  connection delivered, at most \<^verbatim>\<open>recvLen\<close> of which fit the buffer. After the
  \<^verbatim>\<open>resize\<close> the header buffer holds exactly these bytes.
\<close>

definition readRequest :: "ServerConfig \<Rightarrow> nat \<Rightarrow> Session \<Rightarrow> nat option \<Rightarrow> string \<Rightarrow> Session \<times> session_action" where
  "readRequest serverConfig maxUrlLength s ec received =
     (let s = s\<lparr>requestHeaderBuffer := [], requestBodyBuffer := []\<rparr>;
          recvLen = maxRequestHeaderSize serverConfig;
          readBytes = length (take recvLen received)
      in
      case ec of
        Some e \<Rightarrow> if e = ECANCELED then (s, ShutdownThenClose) else (s, Close)
      | None \<Rightarrow>
          if readBytes = 0 then (s, Close)
          else
            (let s = s\<lparr>requestHeaderBuffer := take recvLen received\<rparr> in
             case Request_parse maxUrlLength (requestHeaderBuffer s) of
               Inl AssertionFailed \<Rightarrow> (s, Abort)
             | Inl Nullopt \<Rightarrow> (s, Respond bad_request False)
             | Inr request \<Rightarrow>
                 (let s = s\<lparr>session_request := request\<rparr> in
                  case HeaderMap_get (headers (session_request s)) ''Content-Length'' of
                    None \<Rightarrow> (s, ProcessRequest (session_request s))
                  | Some contentLength \<Rightarrow>
                      (case parseInt_uint64 contentLength of
                         None \<Rightarrow> (s, Respond bad_request False)
                       | Some len \<Rightarrow>
                           if len > maxRequestBodySize serverConfig then
                             (s, Respond bad_request False)
                           else if length (body (session_request s)) < len then
                             (let s = s\<lparr>requestBodyBuffer :=
                                          requestBodyBuffer s @ body (session_request s)\<rparr>;
                                  s = s\<lparr>session_request := (session_request s)\<lparr>body := []\<rparr>\<rparr>
                              in (s, ReadRequestBody len))
                           else
                             (let s = s\<lparr>session_request :=
                                          (session_request s)\<lparr>body := substr (body (session_request s)) 0 (Some len)\<rparr>\<rparr>
                              in (s, ProcessRequest (session_request s)))))))"

section \<open>Server session: keep-alive\<close>

text \<open>
  \<^verbatim>\<open>getKeepAlive\<close>. The inner value is \<^term>\<open>Some r\<close> where the code returns \<open>r\<close>
  from inside the \<^verbatim>\<open>if (connectionHeader)\<close> block and \<^term>\<open>None\<close> where control
  falls through to the version test.
\<close>

definition getKeepAlive :: "Request \<Rightarrow> bool" where
  "getKeepAlive request =
     (case
        (case HeaderMap_get (headers request) ''Connection'' of
           None \<Rightarrow> None
         | Some connectionHeader \<Rightarrow>
             if find_str ''close'' 0 connectionHeader \<noteq> None then Some False
             else if find_str ''keep-alive'' 0 connectionHeader \<noteq> None then Some True
             else None)
      of Some r \<Rightarrow> r
       | None \<Rightarrow> if version request = ''HTTP/1.1'' then True else False)"

section \<open>Client session\<close>

text \<open>
  The client session is a chain of callbacks on one thread: each I/O operation is
  submitted with a continuation, and the continuation runs when the operation completes.
  The model runs the chain against a script of completions (\<open>ClientEnv\<close>) and records
  every invocation of the completion callback in a log.
\<close>

datatype error_code =
    host_unreachable
  | no_message_available
  | invalid_argument
  | os_error nat

datatype address_family = AF_INET | AF_INET6 | AF_OTHER

text \<open>
  Modelled from the spec: \<^verbatim>\<open>Response\<close> is declared in \<^verbatim>\<open>http.hpp\<close>, and
  \<^verbatim>\<open>Response::parse\<close> is not among the sources, so the parser is a parameter of the
  model. The default constructor adds the header \<^verbatim>\<open>Connection: close\<close>.
\<close>

record Response =
  response_status :: nat
  response_headers :: HeaderMap
  response_body :: string

definition Response_default :: Response where
  "Response_default =
     \<lparr>response_status = 200, response_headers = [(''Connection'', ''close'')], response_body = []\<rparr>"

text \<open>
  The script of completions: the result of the asynchronous resolve (an error code and
  the families of the addresses found), whether \<^verbatim>\<open>::socket\<close> fails, the error code of
  the connect, the completions of the successive sends (error code and bytes sent) and
  the completion of the receive (error code and bytes received). A list that runs out,
  or a receive that is \<^term>\<open>None\<close>, is an operation that never completes.
\<close>

record ClientEnv =
  resolve_ec :: "error_code option"
  resolve_addrs :: "address_family list"
  socket_errno :: "nat option"
  connect_ec :: "error_code option"
  send_completions :: "(error_code option \<times> nat) list"
  recv_completion :: "(error_code option \<times> string) option"

text \<open>
  The members of \<^verbatim>\<open>ClientSession\<close>, named without the trailing underscore.
  \<open>callback\<close> tells whether the callback slot holds a callback, \<open>calls\<close> is the
  log of its invocations (oldest first), \<open>connectAddr\<close> is \<^term>\<open>None\<close> for
  \<^verbatim>\<open>AF_UNSPEC\<close>, \<open>connection\<close> tells whether the connection object exists,
  \<open>closes\<close> counts the calls of \<^verbatim>\<open>connection_->close()\<close>, and \<open>aborted\<close> is set
  by a failed \<^verbatim>\<open>assert\<close> or by calling an empty \<^verbatim>\<open>std::function\<close>.
\<close>

record ClientSession =
  callback :: bool
  calls :: "(error_code option \<times> Response) list"
  connectAddr :: "address_family option"
  requestBuffer :: string
  responseBuffer :: string
  sendCursor :: nat
  connection :: bool
  closes :: nat
  aborted :: bool

definition ClientSession_create :: ClientSession where
  "ClientSession_create =
     \<lparr>callback = False, calls = [], connectAddr = None, requestBuffer = [],
      responseBuffer = [], sendCursor = 0, connection = False, closes = 0, aborted = False\<rparr>"

text \<open>\<^verbatim>\<open>callback_(ec, response)\<close>\<close>

definition invoke_callback :: "error_code option \<Rightarrow> Response \<Rightarrow> ClientSession \<Rightarrow> ClientSession" where
  "invoke_callback ec response s =
     (if callback s then s\<lparr>calls := calls s @ [(ec, response)]\<rparr> else s\<lparr>aborted := True\<rparr>)"

text \<open>\<^verbatim>\<open>connection_->close()\<close>\<close>

definition close_connection :: "ClientSession \<Rightarrow> ClientSession" where
  "close_connection s = s\<lparr>closes := Suc (closes s)\<rparr>"

text \<open>\<^verbatim>\<open>recvHeader\<close> with the completion of its receive.\<close>

definition recvHeader :: "(string \<Rightarrow> Response option) \<Rightarrow> ClientEnv \<Rightarrow> ClientSession \<Rightarrow> ClientSession" where
  "recvHeader Response_parse env s =
     (let recvLen = 1024 in
      case recv_completion env of
        None \<Rightarrow> s
      | Some (ec, received) \<Rightarrow>
          (case ec of
             Some e \<Rightarrow> close_connection (invoke_callback (Some e) Response_default s)
           | None \<Rightarrow>
               if length (take recvLen received) = 0 then
                 close_connection (invoke_callback (Some host_unreachable) Response_default s)
               else
                 (let s = s\<lparr>responseBuffer := take recvLen received\<rparr> in
                  case Response_parse (responseBuffer s) of
                    None \<Rightarrow>
                      close_connection (invoke_callback (Some invalid_argument) Response_default s)
                  | Some response \<Rightarrow>
                      (case HeaderMap_get (response_headers response) ''Content-Length'' of
                         None \<Rightarrow> (invoke_callback None response s)\<lparr>callback := False\<rparr>
                       | Some contentLength \<Rightarrow>
                           (case parseInt_uint64 contentLength of
                              None \<Rightarrow>
                                close_connection
                                  (invoke_callback (Some invalid_argument) Response_default s)
                            | Some len \<Rightarrow>
                                (let response =
                                       (if length (response_body response) < len then response
                                        else response\<lparr>response_body :=
                                               substr (response_body response) 0 (Some len)\<rparr>)
                                 in (invoke_callback None response s)\<lparr>callback := False\<rparr>))))))"

text \<open>
  \<^verbatim>\<open>send\<close> with the completions of its sends: one step of the recursion per
  completion, the remaining completions being those of the re-armed sends.
\<close>

fun send_loop :: "(string \<Rightarrow> Response option) \<Rightarrow> ClientEnv \<Rightarrow> (error_code option \<times> nat) list \<Rightarrow> ClientSession \<Rightarrow> ClientSession" where
  "send_loop Response_parse env [] s =
     (if sendCursor s < length (requestBuffer s) then s else s\<lparr>aborted := True\<rparr>)"
| "send_loop Response_parse env ((ec, sentBytes) # rest) s =
     (if \<not> sendCursor s < length (requestBuffer s) then s\<lparr>aborted := True\<rparr>
      else
        (case ec of
           Some e \<Rightarrow> close_connection (invoke_callback (Some e) Response_default s)
         | None \<Rightarrow>
             if sentBytes = 0 then
               close_connection (invoke_callback (Some no_message_available) Response_default s)
             else if sendCursor s + sentBytes < length (requestBuffer s) then
               send_loop Response_parse env rest (s\<lparr>sendCursor := sendCursor s + sentBytes\<rparr>)
             else recvHeader Response_parse env s))"

text \<open>
  The branch of \<^verbatim>\<open>connect\<close> taken once the address is known, with the completion of
  the asynchronous connect.
\<close>

definition connect_resolved :: "(string \<Rightarrow> Response option) \<Rightarrow> ClientEnv \<Rightarrow> address_family \<Rightarrow> ClientSession \<Rightarrow> ClientSession" where
  "connect_resolved Response_parse env family s =
     (let s = (case socket_errno env of
                 Some e \<Rightarrow> invoke_callback (Some (os_error e)) Response_default s
               | None \<Rightarrow> s)
      in
      if family = AF_OTHER then s\<lparr>aborted := True\<rparr>
      else
        (let s = (case connect_ec env of
                    Some e \<Rightarrow> invoke_callback (Some e) Response_default s
                  | None \<Rightarrow> s);
             s = s\<lparr>connection := True\<rparr>
         in send_loop Response_parse env (send_completions env) s))"

text \<open>\<^verbatim>\<open>connect\<close>, with \<^verbatim>\<open>resolve\<close> and its completion when the address is not known yet.\<close>

definition connect :: "(string \<Rightarrow> Response option) \<Rightarrow> ClientEnv \<Rightarrow> ClientSession \<Rightarrow> ClientSession" where
  "connect Response_parse env s =
     (if connection s then s\<lparr>aborted := True\<rparr>
      else
        (case connectAddr s of
           Some family \<Rightarrow> connect_resolved Response_parse env family s
         | None \<Rightarrow>
             (case resolve_ec env of
                Some e \<Rightarrow> invoke_callback (Some e) Response_default s
              | None \<Rightarrow>
                  (case resolve_addrs env of
                     [] \<Rightarrow> invoke_callback (Some host_unreachable) Response_default s
                   | family # others \<Rightarrow>
                       connect_resolved Response_parse env family
                         (s\<lparr>connectAddr := Some family\<rparr>)))))"

text \<open>
  \<^verbatim>\<open>ClientSession::request\<close>; \<open>serialized\<close> is the result of \<^verbatim>\<open>serializeRequest\<close>.
  The result pairs the session, after every callback of the chain has run, with the
  value \<^verbatim>\<open>request\<close> returns.
\<close>

definition request :: "(string \<Rightarrow> Response option) \<Rightarrow> ClientEnv \<Rightarrow> string \<Rightarrow> ClientSession \<Rightarrow> ClientSession \<times> bool" where
  "request Response_parse env serialized s =
     (if callback s then (s, False)
      else
        (let s = s\<lparr>callback := True\<rparr>;
             s = s\<lparr>requestBuffer := serialized\<rparr>
         in if \<not> connection s then (connect Response_parse env s, True) else (s, True)))"

section \<open>Remove dot segments, as the specification words it\<close>

text \<open>
  The specification walks the input segment by segment, a segment being a \<open>/\<close>
  followed by zero or more bytes other than \<open>/\<close>. The definitions of this section
  follow the specification's words; they are compared with the loop of the code below.
\<close>

function segments :: "string \<Rightarrow> string list" where
  "segments [] = []"
| "segments (c # cs) =
     (c # takeWhile (\<lambda>x. x \<noteq> CHR ''/'') cs) # segments (dropWhile (\<lambda>x. x \<noteq> CHR ''/'') cs)"
  by pat_completeness auto

termination segments
  by (relation "measure length") (simp_all add: length_dropWhile_le less_Suc_eq_le)

text \<open>Truncating the output at its last \<open>/\<close>: the last \<open>/\<close> and what follows it go.\<close>

definition truncate_at_last_slash :: "string \<Rightarrow> string" where
  "truncate_at_last_slash out = rev (tl (dropWhile (\<lambda>x. x \<noteq> CHR ''/'') (rev out)))"

text \<open>
  One segment: \<open>/.\<close> is dropped, \<open>/..\<close> is dropped and the output truncated at its
  last \<open>/\<close>, any other segment is appended verbatim.
\<close>

definition spec_step :: "string \<Rightarrow> string \<Rightarrow> string" where
  "spec_step out seg =
     (if seg = ''/.'' then out
      else if seg = ''/..'' then truncate_at_last_slash out
      else out @ seg)"

text \<open>After the walk, an empty output becomes \<open>/\<close>.\<close>

definition spec_removeDotSegments :: "string \<Rightarrow> string" where
  "spec_removeDotSegments input =
     (let out = foldl spec_step [] (segments input) in if out = [] then ''/'' else out)"

text \<open>
  A proper segment is a \<open>/\<close> followed by bytes other than \<open>/\<close>; a list of
  segments is dot-free when each is proper and none is \<open>/.\<close> or \<open>/..\<close>.
\<close>

definition proper_segment :: "string \<Rightarrow> bool" where
  "proper_segment s = (case s of [] \<Rightarrow> False | c # t \<Rightarrow> c = CHR ''/'' \<and> CHR ''/'' \<notin> set t)"

definition dot_free :: "string list \<Rightarrow> bool" where
  "dot_free ss = list_all (\<lambda>s. proper_segment s \<and> s \<noteq> ''/.'' \<and> s \<noteq> ''/..'') ss"

abbreviation not_slash :: "char \<Rightarrow> bool" where
  "not_slash \<equiv> \<lambda>x. x \<noteq> CHR ''/''"

section \<open>The loop of the code computes the specification's walk\<close>

lemma index_of_takeWhile:
  "index_of c s = (if c \<in> set s then Some (length (takeWhile (\<lambda>x. x \<noteq> c) s)) else None)"
  by (induction s) auto

lemma find_char_1_Cons:
  "find_char c (Suc 0) (x # xs) =
     (if c \<in> set xs then Some (Suc (length (takeWhile (\<lambda>y. y \<noteq> c) xs))) else None)"
  by (simp add: find_char_def index_of_takeWhile)

lemma take_Suc_takeWhile:
  "take (Suc (length (takeWhile P xs))) (x # xs) = x # takeWhile P xs"
  by (simp add: takeWhile_eq_take [symmetric])

lemma drop_Suc_takeWhile:
  "drop (Suc (length (takeWhile P xs))) (x # xs) = dropWhile P xs"
  by (simp add: dropWhile_eq_drop [symmetric])

lemma rfind_char_None: "rfind_char c s = None \<longleftrightarrow> c \<notin> set s"
  by (simp add: rfind_char_def index_of_takeWhile)

lemma rfind_char_truncate:
  assumes "rfind_char CHR ''/'' out = Some k"
  shows "take k out = truncate_at_last_slash out"
proof -
  let ?P = "\<lambda>x. x \<noteq> CHR ''/''"
  let ?i = "length (takeWhile ?P (rev out))"
  from assms have k: "k = length out - 1 - ?i" and mem: "CHR ''/'' \<in> set out"
    by (auto simp: rfind_char_def index_of_takeWhile split: if_splits)
  have "dropWhile ?P (rev out) = drop ?i (rev out)"
    by (rule dropWhile_eq_drop)
  then have "tl (dropWhile ?P (rev out)) = drop (Suc ?i) (rev out)"
    by (simp add: drop_Suc tl_drop)
  then have "truncate_at_last_slash out = rev (drop (Suc ?i) (rev out))"
    by (simp add: truncate_at_last_slash_def)
  also have "\<dots> = take (length out - Suc ?i) out"
    by (simp add: rev_drop)
  finally show ?thesis using k by simp
qed

lemma segments_single:
  "CHR ''/'' \<notin> set cs \<Longrightarrow> segments (c # cs) = [c # cs]"
proof -
  assume a: "CHR ''/'' \<notin> set cs"
  then have "takeWhile (\<lambda>x. x \<noteq> CHR ''/'') cs = cs" "dropWhile (\<lambda>x. x \<noteq> CHR ''/'') cs = []"
    by (auto simp: takeWhile_eq_all_conv)
  then show ?thesis by (simp only: segments.simps)
qed

lemma code_step_is_spec_step:
  assumes "out = [] \<or> hd out = CHR ''/''"
  shows "(if seg = ''/.'' then Some out
          else if seg = ''/..'' then
            (case rfind_char CHR ''/'' out of
               Some lastSlash \<Rightarrow> Some (take lastSlash out)
             | None \<Rightarrow> if out = [] then Some out else None)
          else Some (out @ seg)) = Some (spec_step out seg)"
proof (cases "rfind_char CHR ''/'' out")
  case None
  then have "CHR ''/'' \<notin> set out" by (simp add: rfind_char_None)
  with assms have "out = []" by (cases out) auto
  with None show ?thesis by (simp add: spec_step_def truncate_at_last_slash_def)
next
  case (Some k)
  then show ?thesis by (simp add: spec_step_def rfind_char_truncate)
qed

lemma spec_step_keeps_slash:
  assumes "out = [] \<or> hd out = CHR ''/''" and "seg \<noteq> []" and "hd seg = CHR ''/''"
  shows "spec_step out seg = [] \<or> hd (spec_step out seg) = CHR ''/''"
proof -
  have t: "truncate_at_last_slash out = [] \<or> hd (truncate_at_last_slash out) = CHR ''/''"
  proof (cases "rfind_char CHR ''/'' out")
    case None
    then have "CHR ''/'' \<notin> set out" by (simp add: rfind_char_None)
    with assms(1) have "out = []" by (cases out) auto
    then show ?thesis by (simp add: truncate_at_last_slash_def)
  next
    case (Some k)
    then have "truncate_at_last_slash out = take k out" by (simp add: rfind_char_truncate)
    with assms(1) show ?thesis by (cases k; cases out) auto
  qed
  have a: "out @ seg = [] \<or> hd (out @ seg) = CHR ''/''"
    using assms by (cases out) auto
  show ?thesis using t a assms(1) by (simp add: spec_step_def)
qed

lemma loop_refines_fold:
  "\<lbrakk>input = [] \<or> hd input = CHR ''/''; out = [] \<or> hd out = CHR ''/''\<rbrakk>
   \<Longrightarrow> removeDotSegments_loop input out = Some (foldl spec_step out (segments input))"
proof (induction input out rule: removeDotSegments_loop.induct)
  case (1 input out)
  let ?P = "\<lambda>x. x \<noteq> CHR ''/''"
  show ?case
  proof (cases input)
    case Nil
    then show ?thesis by (simp add: removeDotSegments_loop.simps)
  next
    case (Cons c cs)
    with "1.prems" have c: "c = CHR ''/''" by simp
    show ?thesis
    proof (cases "cs = []")
      case True
      with Cons c show ?thesis by (simp add: spec_step_def removeDotSegments_loop.simps)
    next
      case False
      with Cons c have ne: "input \<noteq> []" "hd input = CHR ''/''" "input \<noteq> ''/''" by auto
      show ?thesis
      proof (cases "CHR ''/'' \<in> set cs")
        case False
        then have f: "find_char CHR ''/'' 1 input = None"
          using Cons by (simp add: find_char_1_Cons)
        have s: "segments input = [input]"
          unfolding Cons by (rule segments_single [OF False])
        show ?thesis
          apply (subst removeDotSegments_loop.simps)
          apply (simp only: ne f Let_def substr_def option.case drop_0 if_False not_not if_True
                   code_step_is_spec_step [OF "1.prems"(2)] s)
          apply simp
          done
      next
        case True
        let ?n = "Suc (length (takeWhile ?P cs))"
        have f: "find_char CHR ''/'' 1 input = Some ?n"
          using True Cons by (simp add: find_char_1_Cons)
        have seg: "take ?n input = c # takeWhile ?P cs"
          using Cons by (simp only: take_Suc_takeWhile)
        have rest: "drop ?n input = dropWhile ?P cs"
          using Cons by (simp only: drop_Suc_takeWhile)
        have s: "segments input = take ?n input # segments (drop ?n input)"
          using Cons seg rest by simp
        have restne: "dropWhile ?P cs \<noteq> []" using True by (simp add: dropWhile_eq_Nil_conv)
        then have hdrest: "hd (dropWhile ?P cs) = CHR ''/''"
          using hd_dropWhile [of ?P cs] by simp
        have inv': "spec_step out (take ?n input) = [] \<or> hd (spec_step out (take ?n input)) = CHR ''/''"
          using spec_step_keeps_slash [OF "1.prems"(2), of "take ?n input"] seg c by simp
        have step: "(if take ?n input = ''/.'' then Some out
               else if take ?n input = ''/..'' then
                 (case rfind_char CHR ''/'' out of
                    Some lastSlash \<Rightarrow> Some (take lastSlash out)
                  | None \<Rightarrow> if out = [] then Some out else None)
               else Some (out @ take ?n input)) = Some (spec_step out (take ?n input))"
          by (rule code_step_is_spec_step [OF "1.prems"(2)])
        have IH: "removeDotSegments_loop (drop ?n input) (spec_step out (take ?n input))
                  = Some (foldl spec_step (spec_step out (take ?n input)) (segments (drop ?n input)))"
        proof (rule "1.IH" [OF ne(1) _ ne(3) refl refl _ f])
          show "\<not> hd input \<noteq> CHR ''/''" using ne(2) by simp
          show "(if substr input 0 (find_char CHR ''/'' 1 input) = ''/.'' then Some out
                 else if substr input 0 (find_char CHR ''/'' 1 input) = ''/..'' then
                   (case rfind_char CHR ''/'' out of
                      None \<Rightarrow> if out = [] then Some out else None
                    | Some lastSlash \<Rightarrow> Some (take lastSlash out))
                 else Some (out @ substr input 0 (find_char CHR ''/'' 1 input)))
                = Some (spec_step out (take ?n input))"
            by (simp only: f substr_def option.case drop_0 step)
          show "drop ?n input = [] \<or> hd (drop ?n input) = CHR ''/''"
            using rest hdrest by simp
          show "spec_step out (take ?n input) = [] \<or> hd (spec_step out (take ?n input)) = CHR ''/''"
            by (rule inv')
        qed
        show ?thesis
          apply (subst removeDotSegments_loop.simps)
          apply (simp only: ne f Let_def substr_def option.case drop_0 if_False not_not if_True step s IH)
          apply simp
          done
      qed
    qed
  qed
qed


text \<open>A trailing slash of the input is a last segment \<open>/\<close> of its own.\<close>

lemma segments_trailing_slash:
  "input \<noteq> [] \<Longrightarrow> last input = CHR ''/'' \<Longrightarrow> \<exists>ss. segments input = ss @ [''/'']"
proof (induction input rule: segments.induct)
  case 1
  then show ?case by simp
next
  case (2 c cs)
  let ?P = "\<lambda>x. x \<noteq> CHR ''/''"
  show ?case
  proof (cases "cs = []")
    case True
    with "2.prems" show ?thesis by simp
  next
    case False
    with "2.prems" have l: "last cs = CHR ''/''" by simp
    with False have "CHR ''/'' \<in> set cs" using last_in_set by metis
    then have ne: "dropWhile ?P cs \<noteq> []" by (simp add: dropWhile_eq_Nil_conv)
    have "cs = takeWhile ?P cs @ dropWhile ?P cs" by simp
    then have "last cs = last (dropWhile ?P cs)" using ne by (metis last_appendR)
    with l have "last (dropWhile ?P cs) = CHR ''/''" by simp
    from "2.IH" [OF ne this] obtain ss where "segments (dropWhile ?P cs) = ss @ [''/'']" by blast
    then have "segments (c # cs) = ((c # takeWhile ?P cs) # ss) @ [''/'']" by simp
    then show ?thesis by blast
  qed
qed

lemma spec_removeDotSegments_trailing_slash:
  assumes "input \<noteq> []" and "last input = CHR ''/''"
  shows "last (spec_removeDotSegments input) = CHR ''/''"
proof -
  from segments_trailing_slash [OF assms] obtain ss where "segments input = ss @ [''/'']" by blast
  then have "foldl spec_step [] (segments input) = foldl spec_step [] ss @ ''/''"
    by (simp add: spec_step_def)
  then show ?thesis by (simp add: spec_removeDotSegments_def)
qed

lemma removeDotSegments_refines:
  "input \<noteq> [] \<Longrightarrow> hd input = CHR ''/'' \<Longrightarrow>
     removeDotSegments input = Some (spec_removeDotSegments input)"
  by (simp add: removeDotSegments_def spec_removeDotSegments_def loop_refines_fold Let_def)

lemmas rds_eval = removeDotSegments_def removeDotSegments_loop.simps find_char_def
  rfind_char_def substr_def

text \<open>
  C4. For every non-empty input that begins with \<open>/\<close>, \<^verbatim>\<open>removeDotSegments\<close> returns
  (no \<^verbatim>\<open>assert\<close> fails) and its result is the specification's walk over the segments:
  each \<open>/.\<close> dropped, each \<open>/..\<close> dropped with the output truncated at its last
  \<open>/\<close>, every other segment appended verbatim, and \<open>/\<close> emitted when the output
  would be empty; a trailing \<open>/\<close> of the input is kept. In particular the six
  scenarios of the specification hold.
\<close>

theorem removeDotSegments_meets_spec:
  "(\<forall>input. input \<noteq> [] \<and> hd input = CHR ''/'' \<longrightarrow>
       removeDotSegments input = Some (spec_removeDotSegments input))
   \<and> (\<forall>input. input \<noteq> [] \<and> hd input = CHR ''/'' \<and> last input = CHR ''/'' \<longrightarrow>
       (\<exists>out. removeDotSegments input = Some out \<and> out \<noteq> [] \<and> last out = CHR ''/''))
   \<and> removeDotSegments ''/a/b/c/./../../g'' = Some ''/a/g''
   \<and> removeDotSegments ''/mid/content=5/../6'' = Some ''/mid/6''
   \<and> removeDotSegments ''/'' = Some ''/''
   \<and> removeDotSegments ''/./'' = Some ''/''
   \<and> removeDotSegments ''/../'' = Some ''/''
   \<and> removeDotSegments ''/a/'' = Some ''/a/''"
proof -
  have refines: "removeDotSegments input = Some (spec_removeDotSegments input)"
    if "input \<noteq> []" "hd input = CHR ''/''" for input
    using that by (rule removeDotSegments_refines)
  have nonempty: "spec_removeDotSegments input \<noteq> []" for input
    by (simp add: spec_removeDotSegments_def Let_def)
  have trailing: "\<exists>out. removeDotSegments input = Some out \<and> out \<noteq> [] \<and> last out = CHR ''/''"
    if "input \<noteq> []" "hd input = CHR ''/''" "last input = CHR ''/''" for input
    using refines [OF that(1,2)] nonempty spec_removeDotSegments_trailing_slash [OF that(1,3)]
    by simp
  have e1: "removeDotSegments ''/a/b/c/./../../g'' = Some ''/a/g''"
    by (simp add: rds_eval Let_def cong: let_weak_cong)
  have e2: "removeDotSegments ''/mid/content=5/../6'' = Some ''/mid/6''"
    by (simp add: rds_eval Let_def cong: let_weak_cong)
  have e3: "removeDotSegments ''/'' = Some ''/''"
    by (simp add: rds_eval Let_def cong: let_weak_cong)
  have e4: "removeDotSegments ''/./'' = Some ''/''"
    by (simp add: rds_eval Let_def cong: let_weak_cong)
  have e5: "removeDotSegments ''/../'' = Some ''/''"
    by (simp add: rds_eval Let_def cong: let_weak_cong)
  have e6: "removeDotSegments ''/a/'' = Some ''/a/''"
    by (simp add: rds_eval Let_def cong: let_weak_cong)
  from refines trailing e1 e2 e3 e4 e5 e6 show ?thesis by blast
qed

theorem removeDotSegments_meets_spec_witness:
  "''/x/../y/./z/'' \<noteq> [] \<and> hd ''/x/../y/./z/'' = CHR ''/'' \<and> last ''/x/../y/./z/'' = CHR ''/''
   \<and> removeDotSegments ''/x/../y/./z/'' = Some ''/y/z/''
   \<and> spec_removeDotSegments ''/x/../y/./z/'' = ''/y/z/''"
proof -
  have pre: "''/x/../y/./z/'' \<noteq> [] \<and> hd ''/x/../y/./z/'' = CHR ''/''" by simp
  have val: "spec_removeDotSegments ''/x/../y/./z/'' = ''/y/z/''"
    by (simp add: spec_removeDotSegments_def spec_step_def truncate_at_last_slash_def)
  from removeDotSegments_meets_spec pre
  have "removeDotSegments ''/x/../y/./z/'' = Some (spec_removeDotSegments ''/x/../y/./z/'')"
    by blast
  with val show ?thesis by simp
qed

section \<open>URL parsing: what the code does\<close>

lemmas url_eval = find_char_def find_str_def substr_def rds_eval
  Url_parse_def Url_default_def isScheme_loop.simps isSchemeChar_def isAlphaNum_def char_val_def

text \<open>
  The third disjunct of \<^verbatim>\<open>isAlphaNum\<close> is \<^verbatim>\<open>ch >= 'A' || ch <= 'Z'\<close>, which every
  byte satisfies, so every byte counts as a scheme character.
\<close>

lemma isSchemeChar_always: "isSchemeChar ch"
  by (simp add: isSchemeChar_def isAlphaNum_def char_val_def Let_def) linarith

text \<open>
  C5. The claim: for an absolute URI, \<^verbatim>\<open>Url::parse\<close> skips the authority up to the next
  \<open>/\<close> and succeeds with the normalized path, so that \<open>http://example.org/foo\<close>
  parses with path \<open>/foo\<close>. The code computes \<^verbatim>\<open>urlStr.substr(2, urlStr.find("/", 2))\<close>:
  the position of the next \<open>/\<close> is passed as the length of the substring, so the
  authority is kept. On \<open>http://example.org/foo\<close> the remainder is
  \<open>example.org/f\<close>, which does not begin with \<open>/\<close>, and the parse returns
  \<^verbatim>\<open>nullopt\<close>.
\<close>

theorem Url_parse_absolute_uri_rejected:
  "Url_parse ''http://example.org/foo'' = Inl Nullopt"
  by (simp add: url_eval Let_def cong: let_weak_cong)

text \<open>
  C6. The claim: the bytes up to the first colon are dropped only when all of them are
  scheme characters, so that \<open>/foo:bar\<close> parses with path \<open>/foo:bar\<close>. In the code
  every byte passes the scheme test, the prefix \<open>/foo:\<close> is dropped, the
  remainder \<open>bar\<close> does not begin with \<open>/\<close>, and the parse returns \<^verbatim>\<open>nullopt\<close>.
\<close>

theorem Url_parse_colon_in_path_rejected:
  "(\<forall>ch. isSchemeChar ch) \<and> Url_parse ''/foo:bar'' = Inl Nullopt"
  by (simp add: isSchemeChar_always) (simp add: url_eval Let_def cong: let_weak_cong)

section \<open>URL parsing: the path of an accepted URL\<close>

lemma takeWhile_until_slash:
  "CHR ''/'' \<notin> set d \<Longrightarrow> takeWhile not_slash (d @ CHR ''/'' # b) = d"
  by (induction d) auto

lemma dropWhile_until_slash:
  "CHR ''/'' \<notin> set d \<Longrightarrow> dropWhile not_slash (d @ CHR ''/'' # b) = CHR ''/'' # b"
  by (induction d) auto

lemma takeWhile_no_slash:
  "CHR ''/'' \<notin> set d \<Longrightarrow> takeWhile not_slash d = d"
  by (induction d) auto

lemma dropWhile_no_slash:
  "CHR ''/'' \<notin> set d \<Longrightarrow> dropWhile not_slash d = []"
  by (induction d) auto

lemma segments_proper:
  "input = [] \<or> hd input = CHR ''/'' \<Longrightarrow> list_all proper_segment (segments input)"
proof (induction input rule: segments.induct)
  case 1
  then show ?case by simp
next
  case (2 c cs)
  then have c: "c = CHR ''/''" by simp
  have first: "proper_segment (c # takeWhile not_slash cs)"
    using c by (auto simp: proper_segment_def dest: set_takeWhileD)
  have "dropWhile not_slash cs = [] \<or> hd (dropWhile not_slash cs) = CHR ''/''"
    using hd_dropWhile [of not_slash cs] by auto
  from "2.IH" [OF this] first show ?case by simp
qed

lemma truncate_concat_snoc:
  assumes "proper_segment s"
  shows "truncate_at_last_slash (concat (ss @ [s])) = concat ss"
proof -
  from assms obtain t where s: "s = CHR ''/'' # t" and t: "CHR ''/'' \<notin> set t"
    by (auto simp: proper_segment_def split: list.splits)
  have "dropWhile not_slash (rev t) = []" using t by (auto simp: dropWhile_eq_Nil_conv)
  then have "dropWhile not_slash (rev t @ CHR ''/'' # rev (concat ss)) = CHR ''/'' # rev (concat ss)"
    by (simp add: dropWhile_append3)
  then show ?thesis by (simp add: truncate_at_last_slash_def s)
qed

lemma spec_step_dot_free:
  assumes "dot_free ss" and "proper_segment seg"
  shows "\<exists>ss'. spec_step (concat ss) seg = concat ss' \<and> dot_free ss'"
proof -
  consider (dot) "seg = ''/.''" | (dotdot) "seg = ''/..''" | (other) "seg \<noteq> ''/.''" "seg \<noteq> ''/..''"
    by blast
  then show ?thesis
  proof cases
    case dot
    with assms(1) show ?thesis by (auto simp: spec_step_def)
  next
    case dotdot
    show ?thesis
    proof (cases ss rule: rev_cases)
      case Nil
      with dotdot show ?thesis
        by (auto simp: spec_step_def truncate_at_last_slash_def dot_free_def intro: exI [of _ "[]"])
    next
      case (snoc ss' s)
      with assms(1) have "proper_segment s" "dot_free ss'" by (auto simp: dot_free_def)
      with snoc dotdot show ?thesis
        by (auto simp: spec_step_def truncate_concat_snoc simp del: concat_append)
    qed
  next
    case other
    then have "spec_step (concat ss) seg = concat (ss @ [seg])" by (simp add: spec_step_def)
    moreover have "dot_free (ss @ [seg])" using assms other by (simp add: dot_free_def)
    ultimately show ?thesis by blast
  qed
qed

lemma foldl_spec_step_dot_free:
  "dot_free ss \<Longrightarrow> list_all proper_segment segs \<Longrightarrow>
     \<exists>ss'. foldl spec_step (concat ss) segs = concat ss' \<and> dot_free ss'"
proof (induction segs arbitrary: ss)
  case Nil
  then show ?case by auto
next
  case (Cons seg segs)
  then have "proper_segment seg" "list_all proper_segment segs" by simp_all
  from spec_step_dot_free [OF Cons.prems(1) this(1)]
  obtain ss1 where "spec_step (concat ss) seg = concat ss1" "dot_free ss1" by blast
  with Cons.IH [OF this(2) \<open>list_all proper_segment segs\<close>] show ?case by simp
qed

lemma spec_removeDotSegments_dot_free:
  assumes "input \<noteq> []" and "hd input = CHR ''/''"
  shows "\<exists>ss. spec_removeDotSegments input = concat ss \<and> dot_free ss \<and> ss \<noteq> []"
proof -
  define out where "out = foldl spec_step [] (segments input)"
  have "list_all proper_segment (segments input)" using assms by (simp add: segments_proper)
  with foldl_spec_step_dot_free [of "[]" "segments input"]
  obtain ss where ss: "out = concat ss" "dot_free ss"
    by (auto simp: dot_free_def out_def)
  have res: "spec_removeDotSegments input = (if out = [] then ''/'' else out)"
    by (simp add: spec_removeDotSegments_def out_def)
  show ?thesis
  proof (cases "out = []")
    case True
    have "dot_free [''/'']" by (simp add: dot_free_def proper_segment_def)
    moreover have "spec_removeDotSegments input = concat [''/'']"
      using True res by simp
    ultimately show ?thesis by blast
  next
    case False
    with ss(1) have "ss \<noteq> []" by auto
    moreover have "spec_removeDotSegments input = out"
      using False res by simp
    then have "spec_removeDotSegments input = concat ss"
      by (simp only: ss(1))
    ultimately show ?thesis using ss(2) by blast
  qed
qed

lemma concat_dot_free_head:
  "dot_free ss \<Longrightarrow> concat ss = [] \<or> hd (concat ss) = CHR ''/''"
  by (cases ss) (auto simp: dot_free_def proper_segment_def split: list.splits)

lemma concat_dot_free_nonempty:
  "dot_free ss \<Longrightarrow> ss \<noteq> [] \<Longrightarrow> concat ss \<noteq> []"
  by (cases ss) (auto simp: dot_free_def proper_segment_def split: list.splits)

lemma segments_concat:
  "dot_free ss \<Longrightarrow> segments (concat ss) = ss"
proof (induction ss)
  case Nil
  then show ?case by simp
next
  case (Cons s ss)
  then have df: "dot_free ss" and ps: "proper_segment s" by (simp_all add: dot_free_def)
  from ps obtain t where s: "s = CHR ''/'' # t" and t: "CHR ''/'' \<notin> set t"
    by (auto simp: proper_segment_def split: list.splits)
  let ?r = "concat ss"
  from concat_dot_free_head [OF df] have r: "?r = [] \<or> hd ?r = CHR ''/''" .
  have tw: "takeWhile not_slash (t @ ?r) = t" and dw: "dropWhile not_slash (t @ ?r) = ?r"
  proof -
    show "takeWhile not_slash (t @ ?r) = t"
    proof (cases ?r)
      case Nil
      show ?thesis using t unfolding Nil by (simp add: takeWhile_no_slash)
    next
      case (Cons y ys)
      with r have "y = CHR ''/''" by simp
      with t show ?thesis unfolding Cons by (simp add: takeWhile_until_slash)
    qed
    show "dropWhile not_slash (t @ ?r) = ?r"
    proof (cases ?r)
      case Nil
      show ?thesis using t unfolding Nil by (simp add: dropWhile_no_slash)
    next
      case (Cons y ys)
      with r have "y = CHR ''/''" by simp
      with t show ?thesis unfolding Cons by (simp add: dropWhile_until_slash)
    qed
  qed
  show ?case using tw dw Cons.IH [OF df] by (simp add: s)
qed

lemma segment_of_substring:
  "x = a @ CHR ''/'' # d @ CHR ''/'' # b \<Longrightarrow> CHR ''/'' \<notin> set d \<Longrightarrow>
     (CHR ''/'' # d) \<in> set (segments x)"
proof (induction x arbitrary: a rule: segments.induct)
  case 1
  then show ?case by simp
next
  case (2 c cs)
  show ?case
  proof (cases a)
    case Nil
    with "2.prems" have c: "c = CHR ''/''" and cs: "cs = d @ CHR ''/'' # b" by simp_all
    have "takeWhile not_slash cs = d"
      using "2.prems"(2) unfolding cs by (rule takeWhile_until_slash)
    with c show ?thesis by simp
  next
    case (Cons y a')
    with "2.prems" have cs: "cs = a' @ CHR ''/'' # d @ CHR ''/'' # b" by simp
    have "\<exists>a''. dropWhile not_slash cs = a'' @ CHR ''/'' # d @ CHR ''/'' # b"
    proof (cases "CHR ''/'' \<in> set a'")
      case True
      then obtain p q where pq: "a' = p @ CHR ''/'' # q" "CHR ''/'' \<notin> set p"
        by (meson split_list_first)
      then have "dropWhile not_slash cs = (CHR ''/'' # q) @ CHR ''/'' # d @ CHR ''/'' # b"
        unfolding cs by (simp add: dropWhile_until_slash)
      then show ?thesis by blast
    next
      case False
      then have "dropWhile not_slash cs = [] @ CHR ''/'' # d @ CHR ''/'' # b"
        unfolding cs by (simp add: dropWhile_until_slash)
      then show ?thesis by blast
    qed
    then obtain a'' where "dropWhile not_slash cs = a'' @ CHR ''/'' # d @ CHR ''/'' # b" by blast
    from "2.IH" [OF this "2.prems"(2)] show ?thesis by simp
  qed
qed

lemma Url_parse_path:
  assumes "Url_parse input = Inr u" and "input \<noteq> ''*''"
  shows "\<exists>s. s \<noteq> [] \<and> hd s = CHR ''/'' \<and> removeDotSegments s = Some (path u)"
proof -
  define url0 where "url0 = Url_default\<lparr>fullRaw := input\<rparr>"
  define fragmentStart where "fragmentStart = find_char CHR ''#'' 0 input"
  define url1 where "url1 = (case fragmentStart of
                      None \<Rightarrow> url0
                    | Some f \<Rightarrow> url0\<lparr>fragment := Some (substr input (f + 1) None)\<rparr>)"
  define urlStr1 where "urlStr1 = (case fragmentStart of
                         None \<Rightarrow> input
                       | Some f \<Rightarrow> substr input 0 (Some f))"
  define colon where "colon = find_char CHR '':'' 0 urlStr1"
  define urlStr2 where "urlStr2 = (case colon of
                           None \<Rightarrow> urlStr1
                         | Some c \<Rightarrow>
                             if isScheme_loop urlStr1 c 0 then substr urlStr1 (c + 1) None
                             else urlStr1)"
  define urlStr3 where "urlStr3 = (if 2 \<le> length urlStr2 \<and> substr urlStr2 0 (Some 2) = ''//''
                         then substr urlStr2 2 (find_str ''/'' 2 urlStr2)
                         else urlStr2)"
  define queryStart where "queryStart = find_char CHR ''?'' 0 urlStr3"
  define url2 where "url2 = (case queryStart of
                        None \<Rightarrow> url1
                      | Some q \<Rightarrow> url1\<lparr>query := Some (substr urlStr3 (q + 1) None)\<rparr>)"
  define urlStr4 where "urlStr4 = (case queryStart of
                           None \<Rightarrow> urlStr3
                         | Some q \<Rightarrow> substr urlStr3 0 (Some q))"
  define paramsStart where "paramsStart = find_char CHR '';'' 0 urlStr4"
  define url3 where "url3 = (case paramsStart of
                        None \<Rightarrow> url2
                      | Some p \<Rightarrow> url2\<lparr>params := Some (substr urlStr4 (p + 1) None)\<rparr>)"
  define urlStr5 where "urlStr5 = (case paramsStart of
                           None \<Rightarrow> urlStr4
                         | Some p \<Rightarrow> substr urlStr4 0 (Some p))"
  have raw: "fullRaw (Url_default\<lparr>fullRaw := input\<rparr>) = input" by simp
  have unfolded: "Url_parse input =
     (if urlStr1 = [] then Inl Nullopt
      else if urlStr5 = [] then Inl Nullopt
      else if hd urlStr5 \<noteq> CHR ''/'' then Inl Nullopt
      else (case removeDotSegments urlStr5 of
              None \<Rightarrow> Inl AssertionFailed
            | Some p \<Rightarrow> Inr (url3\<lparr>path := p\<rparr>)))"
    unfolding Url_parse_def Let_def urlStr5_def url3_def paramsStart_def urlStr4_def url2_def
      queryStart_def urlStr3_def urlStr2_def colon_def urlStr1_def url1_def fragmentStart_def
      url0_def
    using assms(2) by (simp only: raw if_False)
  from assms(1) unfolded have ne: "urlStr5 \<noteq> []" and hd: "hd urlStr5 = CHR ''/''"
    by (auto split: if_splits)
  with assms(1) unfolded obtain p where p: "removeDotSegments urlStr5 = Some p" and "u = url3\<lparr>path := p\<rparr>"
    by (auto split: if_splits option.splits)
  then have "removeDotSegments urlStr5 = Some (path u)" by simp
  with ne hd show ?thesis by blast
qed


text \<open>
  C8, as the code has it. For every input other than the asterisk form \<open>*\<close> that
  \<^verbatim>\<open>Url::parse\<close> accepts, the path of the returned \<^verbatim>\<open>Url\<close> is not empty, begins with
  \<open>/\<close>, has no segment \<open>/.\<close> or \<open>/..\<close>, and so contains neither \<open>/./\<close> nor
  \<open>/../\<close>.
\<close>

theorem Url_parse_path_normalized:
  assumes "Url_parse input = Inr u" and "input \<noteq> ''*''"
  shows "path u \<noteq> [] \<and> hd (path u) = CHR ''/''
         \<and> ''/.'' \<notin> set (segments (path u)) \<and> ''/..'' \<notin> set (segments (path u))
         \<and> (\<forall>a b. path u \<noteq> a @ ''/./'' @ b \<and> path u \<noteq> a @ ''/../'' @ b)"
proof -
  from Url_parse_path [OF assms] obtain s
    where s: "s \<noteq> []" "hd s = CHR ''/''" "removeDotSegments s = Some (path u)" by blast
  from removeDotSegments_refines [OF s(1,2)] s(3) have "path u = spec_removeDotSegments s" by simp
  with spec_removeDotSegments_dot_free [OF s(1,2)] obtain ss
    where ss: "path u = concat ss" "dot_free ss" "ss \<noteq> []" by auto
  have segs: "segments (path u) = ss" using ss(1,2) by (simp add: segments_concat)
  have nodot: "''/.'' \<notin> set ss" and nodotdot: "''/..'' \<notin> set ss"
    using ss(2) by (auto simp: dot_free_def list_all_iff)
  have sub1: "path u \<noteq> a @ ''/./'' @ b" for a b
  proof
    assume "path u = a @ ''/./'' @ b"
    then have "path u = a @ CHR ''/'' # ''.'' @ CHR ''/'' # b" by simp
    from segment_of_substring [OF this] have "''/.'' \<in> set (segments (path u))" by simp
    with segs nodot show False by simp
  qed
  have sub2: "path u \<noteq> a @ ''/../'' @ b" for a b
  proof
    assume "path u = a @ ''/../'' @ b"
    then have "path u = a @ CHR ''/'' # ''..'' @ CHR ''/'' # b" by simp
    from segment_of_substring [OF this] have "''/..'' \<in> set (segments (path u))" by simp
    with segs nodotdot show False by simp
  qed
  have ne: "concat ss \<noteq> []" by (rule concat_dot_free_nonempty [OF ss(2,3)])
  have "concat ss = [] \<or> hd (concat ss) = CHR ''/''" by (rule concat_dot_free_head [OF ss(2)])
  with ne have "hd (concat ss) = CHR ''/''" by blast
  then have "hd (path u) = CHR ''/''" by (simp only: ss(1))
  moreover from ne have "path u \<noteq> []" by (simp only: ss(1) not_False_eq_True)
  ultimately show ?thesis using segs nodot nodotdot sub1 sub2 by simp
qed

theorem Url_parse_path_normalized_witness:
  "Url_parse ''/a/./b/../c?k=v'' =
     Inr \<lparr>fullRaw = ''/a/./b/../c?k=v'', path = ''/a/c'', query = Some ''k=v'', params = None,
          fragment = None\<rparr>
   \<and> ''/a/./b/../c?k=v'' \<noteq> ''*''
   \<and> ''/a/c'' \<noteq> [] \<and> hd ''/a/c'' = CHR ''/''
   \<and> ''/.'' \<notin> set (segments ''/a/c'') \<and> ''/..'' \<notin> set (segments ''/a/c'')
   \<and> (\<forall>a b. ''/a/c'' \<noteq> a @ ''/./'' @ b \<and> ''/a/c'' \<noteq> a @ ''/../'' @ b)"
proof -
  have p: "Url_parse ''/a/./b/../c?k=v'' =
     Inr \<lparr>fullRaw = ''/a/./b/../c?k=v'', path = ''/a/c'', query = Some ''k=v'', params = None,
          fragment = None\<rparr>"
    by (simp add: url_eval Let_def cong: let_weak_cong)
  have n: "''/a/./b/../c?k=v'' \<noteq> ''*''" by simp
  from Url_parse_path_normalized [OF p n] p n show ?thesis by simp
qed

text \<open>
  C8, as the claim states it, fails at the asterisk form: \<^verbatim>\<open>Url::parse\<close> returns early
  for \<open>*\<close>, before any path is assigned, and the path of the returned \<^verbatim>\<open>Url\<close> is
  empty.
\<close>

theorem Url_parse_asterisk_path_empty:
  "Url_parse ''*'' = Inr (Url_default\<lparr>fullRaw := ''*''\<rparr>)
   \<and> path (Url_default\<lparr>fullRaw := ''*''\<rparr>) = []"
  by (simp add: Url_parse_def Url_default_def)

section \<open>Request parsing: what the code does\<close>

lemmas request_eval = url_eval parseMethod_def HeaderMap_add_def isHttpWhitespace_def
  Request_default_def skip_whitespace.simps skip_non_whitespace.simps parse_headers_loop.simps
  Request_parse_def

lemma starts_with_iff: "starts_with p s \<longleftrightarrow> (\<exists>b. s = p @ b)"
  by (induction p s rule: starts_with.induct) auto

lemma index_of_append_fresh:
  "c \<notin> set xs \<Longrightarrow> index_of c (xs @ c # r) = Some (length xs)"
  by (induction xs) auto

lemma find_char_0: "find_char c 0 s = index_of c s"
  by (simp add: find_char_def option.map_ident)

lemma index_of_str_append_fresh:
  "c \<notin> set xs \<Longrightarrow> index_of_str (c # p) (xs @ c # p @ r) = Some (length xs)"
proof (induction xs)
  case Nil
  have "starts_with (c # p) (c # p @ r)" by (simp add: starts_with_iff)
  then show ?case by simp
next
  case (Cons x xs)
  then show ?case by simp
qed

lemma parseMethod_literals:
  "parseMethod m = Some M \<Longrightarrow>
     m \<in> {''GET'', ''HEAD'', ''POST'', ''PUT'', ''DELETE'', ''CONNECT'', ''OPTIONS'', ''TRACE'', ''PATCH''}"
  by (simp add: parseMethod_def split: if_splits)


text \<open>
  C10. A valid request line followed by \<open>\r\n\<close> and nothing else parses: for a method
  string \<open>m\<close> that \<^verbatim>\<open>parseMethod\<close> knows, a target \<open>u\<close> that \<^verbatim>\<open>Url::parse\<close>
  accepts (free of spaces and carriage returns, shorter than \<^verbatim>\<open>maxUrlLength\<close>) and a
  version \<open>v\<close> of \<open>HTTP/1.0\<close> or \<open>HTTP/1.1\<close>, \<^verbatim>\<open>Request::parse\<close> succeeds
  on \<open>m u v\r\n\<close> with an empty header map. No empty line is required.
\<close>

theorem Request_parse_without_header_block:
  assumes m: "parseMethod m = Some M"
    and u: "Url_parse u = Inr U"
    and sp: "CHR '' '' \<notin> set u"
    and cr: "CHR 0x0D \<notin> set u"
    and len: "length u < maxUrlLength"
    and v: "v = ''HTTP/1.0'' \<or> v = ''HTTP/1.1''"
  shows "Request_parse maxUrlLength (m @ '' '' @ u @ '' '' @ v @ CRLF) =
           Inr \<lparr>method' = M, url = U, version = v, requestLine = [], headers = [], body = []\<rparr>"
proof -
  define L where "L = m @ CHR '' '' # u @ CHR '' '' # v"
  have inp: "m @ '' '' @ u @ '' '' @ v @ CRLF = L @ CRLF" by (simp add: L_def)
  from parseMethod_literals [OF m] have msp: "CHR '' '' \<notin> set m" and mcr: "CHR 0x0D \<notin> set m"
    by auto
  from v have vcr: "CHR 0x0D \<notin> set v" and vlen: "length v = 8"
    and vpre: "take 7 v = ''HTTP/1.''" and vlast: "v ! 7 = CHR ''0'' \<or> v ! 7 = CHR ''1''"
    by auto
  have Lcr: "CHR 0x0D \<notin> set L" using mcr cr vcr by (simp add: L_def)
  have f1: "find_str CRLF 0 (L @ CRLF) = Some (length L)"
    using index_of_str_append_fresh [OF Lcr, of "[CHR 0x0A]" "[]"] by (simp add: find_str_def)
  have f2: "substr (L @ CRLF) 0 (Some (length L)) = L" by (simp add: substr_def)
  have f3: "find_char CHR '' '' 0 L = Some (length m)"
    using index_of_append_fresh [OF msp] by (simp add: find_char_0 L_def)
  have f4: "substr L 0 (Some (length m)) = m" by (simp add: substr_def L_def)
  have f6: "\<not> length L \<le> Suc (length m)" by (simp add: L_def)
  have f7: "find_char CHR '' '' 0 (substr L (Suc (length m)) (Some maxUrlLength)) = Some (length u)"
  proof -
    have "substr L (Suc (length m)) (Some maxUrlLength) = u @ CHR '' '' # take (maxUrlLength - Suc (length u)) v"
    proof -
      from len obtain k where k: "maxUrlLength - length u = Suc k" "maxUrlLength - Suc (length u) = k"
        by (cases "maxUrlLength - length u") auto
      then show ?thesis by (simp add: substr_def L_def)
    qed
    then show ?thesis using index_of_append_fresh [OF sp] by (simp add: find_char_0)
  qed
  have f8: "substr L (Suc (length m)) (Some (length u)) = u" by (simp add: substr_def L_def)
  have f10: "\<not> length L < Suc (Suc (length m + length u))" by (simp add: L_def)
  have f11: "substr L (Suc (Suc (length m + length u))) None = v" by (simp add: substr_def L_def)
  have f12: "substr v 0 (Some 7) = ''HTTP/1.''" using vpre by (simp add: substr_def)
  have f13: "parse_headers_loop (L @ CRLF) (Suc (Suc (Suc (Suc (length L))))) [] =
               Inr (Suc (Suc (Suc (Suc (length L)))), [])"
    by (simp add: parse_headers_loop.simps)
  show ?thesis
    unfolding inp Request_parse_def
    using vlast
    by (simp add: Let_def f1 f2 f3 f4 m f6 f7 f8 u f10 f11 f12 f13 vlen Request_default_def
          cong: let_weak_cong)
qed


theorem Request_parse_without_header_block_witness:
  "parseMethod ''GET'' = Some Get
   \<and> Url_parse ''/'' =
       Inr \<lparr>fullRaw = ''/'', path = ''/'', query = None, params = None, fragment = None\<rparr>
   \<and> CHR '' '' \<notin> set ''/'' \<and> CHR 0x0D \<notin> set ''/'' \<and> length ''/'' < (2048 :: nat)
   \<and> Request_parse 2048 (''GET / HTTP/1.1'' @ CRLF) =
       Inr \<lparr>method' = Get,
            url = \<lparr>fullRaw = ''/'', path = ''/'', query = None, params = None, fragment = None\<rparr>,
            version = ''HTTP/1.1'', requestLine = [], headers = [], body = []\<rparr>"
proof -
  have m: "parseMethod ''GET'' = Some Get" by (simp add: parseMethod_def)
  have u: "Url_parse ''/'' =
       Inr \<lparr>fullRaw = ''/'', path = ''/'', query = None, params = None, fragment = None\<rparr>"
    by (simp add: url_eval Let_def cong: let_weak_cong)
  have sp: "CHR '' '' \<notin> set ''/''" and cr: "CHR 0x0D \<notin> set ''/''" by simp_all
  have len: "length ''/'' < (2048 :: nat)" by simp
  have v: "''HTTP/1.1'' = ''HTTP/1.0'' \<or> ''HTTP/1.1'' = ''HTTP/1.1''" by simp
  from Request_parse_without_header_block [OF m u sp cr len v] m u sp cr len
  show ?thesis by simp
qed

text \<open>
  \<^verbatim>\<open>Request::parse\<close> assigns the method, the URL, the version and the headers of the
  request it returns, and nothing else: on every input it accepts, the request line
  and the body of the result are empty.
\<close>

lemma Request_parse_leaves_members_unassigned:
  "Request_parse maxUrlLength requestStr = Inr req \<Longrightarrow> requestLine req = [] \<and> body req = []"
  by (auto simp: Request_parse_def Let_def Request_default_def
      split: option.splits sum.splits if_splits prod.splits)

text \<open>
  C3. The claim: \<^verbatim>\<open>Request::parse(R).request_line\<close> is the bytes of \<open>R\<close> up to the first
  \<open>\r\n\<close>. The code computes the request line in a local variable and never assigns
  the member, so the parsed request carries an empty request line. (The header
  \<open>Host: h\<close> is also read two bytes late, see C2.)
\<close>

theorem Request_parse_requestLine_empty:
  "Request_parse 2048 (''GET /x HTTP/1.1'' @ CRLF @ ''Host: h'' @ CRLF @ CRLF) =
     Inr \<lparr>method' = Get,
          url = \<lparr>fullRaw = ''/x'', path = ''/x'', query = None, params = None, fragment = None\<rparr>,
          version = ''HTTP/1.1'', requestLine = [], headers = [(''st'', ''h'')], body = []\<rparr>"
  by (simp add: request_eval Let_def cong: let_weak_cong)

text \<open>
  C2. The claim: parsing the serialization of a header map gives the header map back,
  the first header line being read right after the \<open>\r\n\<close> of the request line. The
  code advances \<^verbatim>\<open>lineStart\<close> by two more bytes before the header loop, so the
  first header line loses its first two bytes: the header \<open>Host: h\<close> comes back as
  \<open>st: h\<close>.
\<close>

theorem Request_parse_header_roundtrip_fails:
  "HeaderMap_serialize [(''Host'', ''h'')] (''GET / HTTP/1.1'' @ CRLF) @ CRLF
     = ''GET / HTTP/1.1'' @ CRLF @ ''Host: h'' @ CRLF @ CRLF
   \<and> map_sum id headers
        (Request_parse 2048 (HeaderMap_serialize [(''Host'', ''h'')] (''GET / HTTP/1.1'' @ CRLF) @ CRLF))
     = Inr [(''st'', ''h'')]"
  by (simp add: request_eval HeaderMap_serialize_def Let_def cong: let_weak_cong)

section \<open>Server session: what the code does\<close>

lemmas server_eval = request_eval HeaderMap_get_def ascii_lower_def digit_val_def
  parseInt_uint64_def readRequest_def bad_request_def

text \<open>
  Whenever the completion of the header receive goes on to invoke the handler, the
  request it passes has an empty body.
\<close>

lemma readRequest_handler_sees_no_body:
  "readRequest serverConfig maxUrlLength s ec received = (s', ProcessRequest r) \<Longrightarrow> body r = []"
  by (auto simp: readRequest_def Let_def substr_def
      split: option.splits sum.splits if_splits failure.splits
      dest: Request_parse_leaves_members_unassigned)

text \<open>
  C1. The claim: when the body is already in the bytes read, the server binds it as a
  substring of the header buffer and invokes the handler, which sees \<open>hello\<close>
  without a further read. \<^verbatim>\<open>Request::parse\<close> never assigns the body, so after the parse
  the body is empty, \<open>0 < 5\<close>, and the server calls \<^verbatim>\<open>readRequestBody(5)\<close>: it
  issues a further receive and the handler is not invoked.
\<close>

theorem readRequest_body_not_bound:
  "readRequest \<lparr>maxRequestHeaderSize = 1024, maxRequestBodySize = 1024\<rparr> 2048
      \<lparr>requestHeaderBuffer = [], requestBodyBuffer = [], session_request = Request_default\<rparr> None
      (''POST /p HTTP/1.1'' @ CRLF @ ''Host: h'' @ CRLF @ ''Content-Length: 5'' @ CRLF @ CRLF @ ''hello'')
   = (\<lparr>requestHeaderBuffer =
          ''POST /p HTTP/1.1'' @ CRLF @ ''Host: h'' @ CRLF @ ''Content-Length: 5'' @ CRLF @ CRLF @ ''hello'',
        requestBodyBuffer = [],
        session_request =
          \<lparr>method' = Post,
           url = \<lparr>fullRaw = ''/p'', path = ''/p'', query = None, params = None, fragment = None\<rparr>,
           version = ''HTTP/1.1'', requestLine = [],
           headers = [(''st'', ''h''), (''Content-Length'', ''5'')], body = []\<rparr>\<rparr>,
      ReadRequestBody 5)"
  by (simp add: server_eval Let_def cong: let_weak_cong)

lemma index_of_str_None_iff:
  "index_of_str p s = None \<longleftrightarrow> \<not> (\<exists>a b. s = a @ p @ b)"
proof (induction s)
  case Nil
  then show ?case by auto
next
  case (Cons x xs)
  show ?case
  proof (cases "starts_with p (x # xs)")
    case True
    then obtain b where "x # xs = [] @ p @ b" by (auto simp: starts_with_iff)
    then have "\<exists>a b. x # xs = a @ p @ b" by blast
    with True show ?thesis by simp
  next
    case False
    have "(\<exists>a b. x # xs = a @ p @ b) \<longleftrightarrow> (\<exists>a b. xs = a @ p @ b)"
    proof
      assume "\<exists>a b. x # xs = a @ p @ b"
      then obtain a b where ab: "x # xs = a @ p @ b" by blast
      show "\<exists>a b. xs = a @ p @ b"
      proof (cases a)
        case Nil
        with ab False show ?thesis by (simp add: starts_with_iff)
      next
        case (Cons y a')
        with ab have "xs = a' @ p @ b" by simp
        then show ?thesis by blast
      qed
    next
      assume "\<exists>a b. xs = a @ p @ b"
      then obtain a b where "xs = a @ p @ b" by blast
      then have "x # xs = (x # a) @ p @ b" by simp
      then show "\<exists>a b. x # xs = a @ p @ b" by blast
    qed
    with False Cons.IH show ?thesis by simp
  qed
qed

lemma find_str_0_found_iff:
  "find_str p 0 s \<noteq> None \<longleftrightarrow> (\<exists>a b. s = a @ p @ b)"
  using index_of_str_None_iff [of p s] by (simp add: find_str_def)


text \<open>
  C9. The keep-alive decision matches substrings of the value that
  \<^verbatim>\<open>headers.get("Connection")\<close> returns: a value containing \<open>close\<close> anywhere disables
  keep-alive, even when it also contains \<open>keep-alive\<close>; otherwise a value containing
  \<open>keep-alive\<close> enables it; otherwise, and when there is no such header, keep-alive
  holds exactly when the version is \<open>HTTP/1.1\<close>. The value \<open>preclosed\<close>
  disables keep-alive on an \<open>HTTP/1.1\<close> request.
\<close>

theorem getKeepAlive_matches_substrings:
  "getKeepAlive req =
     (case HeaderMap_get (headers req) ''Connection'' of
        None \<Rightarrow> version req = ''HTTP/1.1''
      | Some v \<Rightarrow>
          if \<exists>a b. v = a @ ''close'' @ b then False
          else if \<exists>a b. v = a @ ''keep-alive'' @ b then True
          else version req = ''HTTP/1.1'')
   \<and> getKeepAlive
        (Request_default\<lparr>version := ''HTTP/1.1'', headers := [(''Connection'', ''preclosed'')]\<rparr>)
       = False"
proof
  show "getKeepAlive req =
     (case HeaderMap_get (headers req) ''Connection'' of
        None \<Rightarrow> version req = ''HTTP/1.1''
      | Some v \<Rightarrow>
          if \<exists>a b. v = a @ ''close'' @ b then False
          else if \<exists>a b. v = a @ ''keep-alive'' @ b then True
          else version req = ''HTTP/1.1'')"
    unfolding getKeepAlive_def find_str_0_found_iff
    by (simp split: option.splits)
  show "getKeepAlive
        (Request_default\<lparr>version := ''HTTP/1.1'', headers := [(''Connection'', ''preclosed'')]\<rparr>)
       = False"
    by (simp add: getKeepAlive_def HeaderMap_get_def ascii_lower_def find_str_def Request_default_def)
qed


section \<open>Client session: what the code does\<close>

lemmas client_eval = request_def connect_def connect_resolved_def invoke_callback_def
  close_connection_def ClientSession_create_def

text \<open>
  C7. The claim: a call of \<^verbatim>\<open>request\<close> that returns true invokes the callback exactly
  once. The error branches of \<^verbatim>\<open>connect\<close> invoke the callback and do not return:
  when the asynchronous connect fails (here with error 111) the callback is invoked,
  the connection object is created all the same and \<^verbatim>\<open>send\<close> runs; when that send
  fails in turn (here with error 32) the callback is invoked a second time.
\<close>

theorem request_callback_invoked_twice:
  "request Response_parse
      \<lparr>resolve_ec = None, resolve_addrs = [AF_INET], socket_errno = None,
       connect_ec = Some (os_error 111), send_completions = [(Some (os_error 32), 0)],
       recv_completion = None\<rparr>
      (''GET / HTTP/1.1'' @ CRLF @ ''Host: h'' @ CRLF @ CRLF) ClientSession_create
   = (\<lparr>callback = True,
        calls = [(Some (os_error 111), Response_default), (Some (os_error 32), Response_default)],
        connectAddr = Some AF_INET,
        requestBuffer = ''GET / HTTP/1.1'' @ CRLF @ ''Host: h'' @ CRLF @ CRLF,
        responseBuffer = [], sendCursor = 0, connection = True, closes = 1, aborted = False\<rparr>,
      True)"
  by (simp add: client_eval Let_def cong: let_weak_cong)

end
